theory Spec2Isabelle
  imports Main "HOL-Library.Multiset"
begin

section \<open>Story map data (services/api)\<close>

text \<open>
  The story map as the REST client types it: \<^verbatim>\<open>StoryMapNode\<close>, \<^verbatim>\<open>StoryMapEdge\<close> and
  \<^verbatim>\<open>StoryMapResponse\<close>. Identifiers are JavaScript strings, modelled as \<^typ>\<open>string\<close>;
  vote counts are JavaScript numbers holding integers, modelled as \<^typ>\<open>int\<close>.
  A field is optional in the model exactly where the component tests for its absence:
  \<^verbatim>\<open>node.label || 'Untitled'\<close>, \<^verbatim>\<open>node.isDeleted ?? false\<close> and \<^verbatim>\<open>!mapData.nodes\<close>.
\<close>

datatype StoryMapNodeType = ROOT | BRANCH | LEAF

record StoryMapNode =
  node_id :: string
  node_label :: "string option"
  node_type :: StoryMapNodeType
  node_isDeleted :: "bool option"

record EdgeData =
  sourceId :: string
  targetId :: string
  votes :: int

record StoryMapResponse =
  nodes :: "StoryMapNode list option"
  edges :: "EdgeData list"

section \<open>JavaScript containers\<close>

text \<open>
  A JavaScript \<^verbatim>\<open>Map\<close> iterates in insertion order, and \<^verbatim>\<open>set\<close> on a key that is
  present replaces the value in place. It is modelled as an association list with these
  two properties.
\<close>

type_synonym ('k, 'v) jsmap = "('k \<times> 'v) list"

fun Map_set :: "'k \<Rightarrow> 'v \<Rightarrow> ('k, 'v) jsmap \<Rightarrow> ('k, 'v) jsmap" where
  "Map_set k v [] = [(k, v)]"
| "Map_set k v (p # ps) = (if fst p = k then (k, v) # ps else p # Map_set k v ps)"

definition Map_get :: "('k, 'v) jsmap \<Rightarrow> 'k \<Rightarrow> 'v option" where
  "Map_get m k = map_of m k"

definition Map_has :: "('k, 'v) jsmap \<Rightarrow> 'k \<Rightarrow> bool" where
  "Map_has m k = (map_of m k \<noteq> None)"

text \<open>
  \<^verbatim>\<open>Math.max(...xs)\<close>: the largest argument, and \<^verbatim>\<open>-Infinity\<close> (here \<open>None\<close>) when
  there is none.
\<close>

fun Math_max :: "int list \<Rightarrow> int option" where
  "Math_max [] = None"
| "Math_max (x # xs) = Some (foldl max x xs)"

text \<open>
  \<^verbatim>\<open>s.split(c)\<close> for a one-character separator: the segments between the occurrences
  of \<open>c\<close>; never the empty list.
\<close>

fun split :: "char \<Rightarrow> string \<Rightarrow> string list" where
  "split c [] = [[]]"
| "split c (x # xs) =
     (if x = c then [] # split c xs
      else (case split c xs of [] \<Rightarrow> [[x]] | seg # segs \<Rightarrow> (x # seg) # segs))"

section \<open>The golden path (components/StoryGraph)\<close>

text \<open>
  \<^verbatim>\<open>processGoldenPath\<close> first groups the edges by source, in a \<^verbatim>\<open>Map\<close> from source id to
  the array of that source's edges (\<open>groupEdges\<close> is its first \<^verbatim>\<open>forEach\<close>).
\<close>

definition groupStep ::
  "(string, EdgeData list) jsmap \<Rightarrow> EdgeData \<Rightarrow> (string, EdgeData list) jsmap" where
  "groupStep edgesBySource edge =
     (let group = (case Map_get edgesBySource (sourceId edge) of None \<Rightarrow> [] | Some g \<Rightarrow> g)
      in Map_set (sourceId edge) (group @ [edge]) edgesBySource)"

definition groupEdges :: "EdgeData list \<Rightarrow> (string, EdgeData list) jsmap" where
  "groupEdges es = foldl groupStep [] es"

text \<open>
  The key under which a winning edge is stored: \<^verbatim>\<open>`${sourceId}-${targetId}`\<close>.
\<close>

definition edgeKey :: "string \<Rightarrow> string \<Rightarrow> string" where
  "edgeKey s t = s @ ''-'' @ t"

text \<open>
  The second \<^verbatim>\<open>forEach\<close>: for one group, compute \<open>maxVotes\<close>, skip the group when it is
  zero, and otherwise store every edge whose votes equal \<open>maxVotes\<close>.
\<close>

definition markStep ::
  "string \<Rightarrow> int option \<Rightarrow> (string, string) jsmap \<Rightarrow> EdgeData \<Rightarrow> (string, string) jsmap" where
  "markStep src maxVotes winners edge =
     (if Some (votes edge) = maxVotes
      then Map_set (edgeKey src (targetId edge)) (targetId edge) winners
      else winners)"

definition winnerStep ::
  "(string, string) jsmap \<Rightarrow> string \<times> EdgeData list \<Rightarrow> (string, string) jsmap" where
  "winnerStep winners grp =
     (let src = fst grp; sourceEdges = snd grp;
          maxVotes = Math_max (map votes sourceEdges)
      in if maxVotes = Some 0 then winners
         else foldl (markStep src maxVotes) winners sourceEdges)"

definition processGoldenPath :: "EdgeData list \<Rightarrow> (string, string) jsmap" where
  "processGoldenPath es = foldl winnerStep [] (groupEdges es)"

section \<open>The view model (components/StoryGraph, components/StoryNode)\<close>

record StoryNodeData =
  label :: string
  nodeType :: StoryMapNodeType
  isCurrent :: bool
  isOnWinnerPath :: bool
  isDeleted :: bool

text \<open>
  A React Flow node as the builder creates it: its type is always \<^verbatim>\<open>'storyNode'\<close> and its
  position \<^verbatim>\<open>{x: 0, y: 0}\<close> until the layout library places it; both are left out.
\<close>

record FlowNode =
  flow_id :: string
  flow_data :: StoryNodeData

record EdgeStyle =
  stroke :: string
  strokeWidth :: nat

record FlowEdge =
  edge_id :: string
  source :: string
  target :: string
  style :: EdgeStyle
  animated :: bool
  edge_label :: "string option"

definition getEdgeStyle :: "bool \<Rightarrow> EdgeStyle" where
  "getEdgeStyle isWinner =
     (if isWinner then \<lparr>stroke = ''#8b5cf6'', strokeWidth = 3\<rparr>
      else \<lparr>stroke = ''#334155'', strokeWidth = 1\<rparr>)"

text \<open>
  The template literal \<^verbatim>\<open>`${edge.votes}`\<close>. A vote count is a JavaScript number, and the
  integers are modelled exactly only up to \<^verbatim>\<open>Number.MAX_SAFE_INTEGER\<close>: there the literal
  is the decimal numeral, with a minus sign when the number is negative. Beyond, the
  engine prints the shortest digits that identify the floating-point value, padded with
  zeros, and from \<^verbatim>\<open>1e21\<close> on in exponent form; that text is not modelled, and
  \<open>inexactText\<close> stands for it without saying what it is.
\<close>

fun digits :: "nat \<Rightarrow> string" where
  "digits n =
     (if n < 10 then [char_of (48 + n)]
      else digits (n div 10) @ [char_of (48 + n mod 10)])"

declare digits.simps [simp del]

definition MAX_SAFE_INTEGER :: int where
  "MAX_SAFE_INTEGER = 9007199254740991"

definition inexactText :: "int \<Rightarrow> string" where
  "inexactText = (SOME f. True)"

definition Number_toString :: "int \<Rightarrow> string" where
  "Number_toString i =
     (if \<bar>i\<bar> \<le> MAX_SAFE_INTEGER
      then (if i < 0 then ''-'' @ digits (nat (- i)) else digits (nat i))
      else inexactText i)"

text \<open>
  \<open>winnerNodes\<close> is the \<^verbatim>\<open>goldenPath.forEach((targetId, edgeKey) => ...)\<close> loop: the source
  id is read back from the key as \<^verbatim>\<open>edgeKey.split('-')[0]\<close>.
\<close>

definition winnerNodes :: "(string, string) jsmap \<Rightarrow> string set" where
  "winnerNodes goldenPath =
     foldl (\<lambda>ws entry.
              let edgeKey = fst entry; targetId = snd entry;
                  sourceId = hd (split CHR ''-'' edgeKey)
              in insert targetId (insert sourceId ws))
           {} goldenPath"

definition toFlowNode :: "string option \<Rightarrow> string set \<Rightarrow> StoryMapNode \<Rightarrow> FlowNode" where
  "toFlowNode currentTaleId wn node =
     \<lparr>flow_id = node_id node,
      flow_data =
        \<lparr>label = (case node_label node of None \<Rightarrow> ''Untitled''
                   | Some l \<Rightarrow> if l = [] then ''Untitled'' else l),
         nodeType = node_type node,
         isCurrent = (Some (node_id node) = currentTaleId),
         isOnWinnerPath = (node_id node \<in> wn),
         isDeleted = (case node_isDeleted node of None \<Rightarrow> False | Some d \<Rightarrow> d)\<rparr>\<rparr>"

definition toFlowEdge :: "(string, string) jsmap \<Rightarrow> EdgeData \<Rightarrow> FlowEdge" where
  "toFlowEdge goldenPath edge =
     (let key = edgeKey (sourceId edge) (targetId edge);
          isWinner = Map_has goldenPath key
      in \<lparr>edge_id = ''e-'' @ sourceId edge @ ''-'' @ targetId edge,
          source = sourceId edge,
          target = targetId edge,
          style = getEdgeStyle isWinner,
          animated = isWinner,
          edge_label = (if votes edge > 0 then Some (Number_toString (votes edge)) else None)\<rparr>)"

text \<open>
  The first \<^verbatim>\<open>useMemo\<close> of \<^verbatim>\<open>StoryGraph\<close>: from \<open>mapData\<close> and \<open>currentTaleId\<close> to
  \<open>processedNodes\<close> and \<open>processedEdges\<close>.
\<close>

definition processed ::
  "StoryMapResponse option \<Rightarrow> string option \<Rightarrow> FlowNode list \<times> FlowEdge list" where
  "processed mapData currentTaleId =
     (case mapData of
        None \<Rightarrow> ([], [])
      | Some md \<Rightarrow>
          (case nodes md of
             None \<Rightarrow> ([], [])
           | Some ns \<Rightarrow>
               if length ns = 0 then ([], [])
               else
                 let goldenPath = processGoldenPath (edges md);
                     wn = winnerNodes goldenPath
                 in (map (toFlowNode currentTaleId wn) ns,
                     map (toFlowEdge goldenPath) (edges md))))"

text \<open>
  What \<^verbatim>\<open>StoryGraph\<close> returns: the loading panel, the empty panel, or the graph. The graph
  panel is given by the processed nodes and edges; their coordinates come from the layout
  library and are not modelled.
\<close>

datatype panel = LoadingPanel | EmptyPanel | GraphPanel "FlowNode list" "FlowEdge list"

fun panelText :: "panel \<Rightarrow> string option" where
  "panelText LoadingPanel = Some ''Loading story map...''"
| "panelText EmptyPanel = Some ''No story map available''"
| "panelText (GraphPanel ns es) = None"

definition StoryGraph ::
  "StoryMapResponse option \<Rightarrow> string option \<Rightarrow> bool option \<Rightarrow> panel" where
  "StoryGraph mapData currentTaleId isLoading =
     (let processedNodes = fst (processed mapData currentTaleId);
          processedEdges = snd (processed mapData currentTaleId)
      in if isLoading = Some True then LoadingPanel
         else if mapData = None \<or> length processedNodes = 0 then EmptyPanel
         else GraphPanel processedNodes processedEdges)"

text \<open>
  \<^verbatim>\<open>StoryNode\<close> renders one node: the border class, the dimming of a deleted node, the
  type indicator badge and the text of the label.
\<close>

datatype badge = RootBadge | LeafBadge

record StoryNodeView =
  borderClass :: string
  dimmed :: bool
  typeIndicator :: "badge option"
  textLabel :: string

definition getBorderClass :: "StoryNodeData \<Rightarrow> string" where
  "getBorderClass d =
     (if isDeleted d then ''border-dashed border-slate-600''
      else if isCurrent d then ''border-violet-500 shadow-[0_0_15px_rgba(139,92,246,0.5)]''
      else if isOnWinnerPath d then ''border-amber-400 shadow-[0_0_10px_rgba(251,191,36,0.3)]''
      else ''border-slate-700'')"

fun getTypeIndicator :: "StoryMapNodeType \<Rightarrow> badge option" where
  "getTypeIndicator ROOT = Some RootBadge"
| "getTypeIndicator LEAF = Some LeafBadge"
| "getTypeIndicator BRANCH = None"

definition StoryNode :: "StoryNodeData \<Rightarrow> StoryNodeView" where
  "StoryNode d =
     \<lparr>borderClass = getBorderClass d,
      dimmed = isDeleted d,
      typeIndicator = (if \<not> isDeleted d then getTypeIndicator (nodeType d) else None),
      textLabel = (if isDeleted d then ''[Deleted]''
                   else if label d = [] then ''Untitled'' else label d)\<rparr>"

section \<open>The story-map fetch of the reader (components/ReaderView, App)\<close>

text \<open>
  The effect \<^verbatim>\<open>useEffect(() => { fetchMapData() }, [id])\<close> of a reader view. A run of
  \<^verbatim>\<open>fetchMapData\<close> has three moments: it starts (and returns at once when \<open>id\<close> is
  absent or empty), and later its \<^verbatim>\<open>getStoryMap(id)\<close> promise either resolves or rejects.
  The state is the two \<^verbatim>\<open>useState\<close> cells the function writes, together with the ids of
  the requests still in flight, which the JavaScript runtime keeps.
\<close>

record MapState =
  storyMapData :: "StoryMapResponse option"
  isMapLoading :: bool
  inFlight :: "string list"

datatype mapEvent =
    IdChanged "string option"
  | Resolved string StoryMapResponse
  | Rejected string

definition initialMapState :: MapState where
  "initialMapState = \<lparr>storyMapData = None, isMapLoading = False, inFlight = []\<rparr>"

fun fetchMapData :: "MapState \<Rightarrow> mapEvent \<Rightarrow> MapState" where
  "fetchMapData s (IdChanged None) = s"
| "fetchMapData s (IdChanged (Some i)) =
     (if i = [] then s else s\<lparr>isMapLoading := True, inFlight := inFlight s @ [i]\<rparr>)"
| "fetchMapData s (Resolved i mapData) =
     (if i \<in> set (inFlight s)
      then s\<lparr>storyMapData := Some mapData, isMapLoading := False,
             inFlight := remove1 i (inFlight s)\<rparr>
      else s)"
| "fetchMapData s (Rejected i) =
     (if i \<in> set (inFlight s)
      then s\<lparr>storyMapData := None, isMapLoading := False,
             inFlight := remove1 i (inFlight s)\<rparr>
      else s)"

text \<open>
  \<^verbatim>\<open>App\<close> renders the routes inside \<^verbatim>\<open><motion.div key={location.pathname}>\<close>, and the
  tale id is part of the path \<^verbatim>\<open>/tale/:id\<close>. So a navigation to another tale changes the
  key: the reader view of the old path is unmounted and a new \<^verbatim>\<open>ReaderView\<close> is mounted,
  with fresh state cells, whose effect starts the fetch for the new id. A reader view
  therefore has one id for all its life.

  The application is modelled as the list of the reader views mounted so far, in the
  order of mounting; the last one is the view on screen. A response of
  \<^verbatim>\<open>getStoryMap\<close> goes to the view whose effect made the request, given by its position
  in the list. The refetch after a contribution asks again for the id of the same view
  and is left out.
\<close>

record ReaderView =
  view_id :: string
  view_map :: MapState

definition mountReaderView :: "string \<Rightarrow> ReaderView" where
  "mountReaderView i =
     \<lparr>view_id = i, view_map = fetchMapData initialMapState (IdChanged (Some i))\<rparr>"

datatype appEvent =
    Navigate string
  | MapResolved nat StoryMapResponse
  | MapRejected nat

fun appStep :: "ReaderView list \<Rightarrow> appEvent \<Rightarrow> ReaderView list" where
  "appStep vs (Navigate i) =
     (if vs \<noteq> [] \<and> view_id (last vs) = i then vs else vs @ [mountReaderView i])"
| "appStep vs (MapResolved n mapData) =
     (if n < length vs
      then vs[n := (vs ! n)\<lparr>view_map :=
                     fetchMapData (view_map (vs ! n)) (Resolved (view_id (vs ! n)) mapData)\<rparr>]
      else vs)"
| "appStep vs (MapRejected n) =
     (if n < length vs
      then vs[n := (vs ! n)\<lparr>view_map :=
                     fetchMapData (view_map (vs ! n)) (Rejected (view_id (vs ! n)))\<rparr>]
      else vs)"

definition runApp :: "appEvent list \<Rightarrow> ReaderView list" where
  "runApp evs = foldl appStep [] evs"

text \<open>The tale on screen and the story-map state in effect: those of the last view.\<close>

definition currentTale :: "ReaderView list \<Rightarrow> string option" where
  "currentTale vs = (if vs = [] then None else Some (view_id (last vs)))"

definition storyMapInEffect :: "ReaderView list \<Rightarrow> StoryMapResponse option" where
  "storyMapInEffect vs = (if vs = [] then None else storyMapData (view_map (last vs)))"

text \<open>
  A settlement that is late for the view at position \<open>b\<close>: the response to a request
  made by a view mounted before it.
\<close>

fun lateFor :: "nat \<Rightarrow> appEvent \<Rightarrow> bool" where
  "lateFor b (Navigate i) = False"
| "lateFor b (MapResolved n mapData) = (n < b)"
| "lateFor b (MapRejected n) = (n < b)"

section \<open>Optimistic votes of the reader (components/ReaderView)\<close>

text \<open>
  \<open>votedTales\<close> is a \<^verbatim>\<open>Set<string>\<close> and \<open>optimisticVotes\<close> a \<^verbatim>\<open>Record<string, number>\<close>,
  modelled as the finite map of its own properties. \<open>renderedVotedTales\<close> is the value
  of \<open>votedTales\<close> at the last render, which is the value the click handler of that
  render sees. \<open>pendingVotes\<close> are the vote mutations whose request has not settled yet
  and \<open>succeededVotes\<close> those whose request succeeded; the mutation library and the
  server keep them, the component does not.
\<close>

record VoteState =
  votedTales :: "string set"
  optimisticVotes :: "string \<rightharpoonup> int"
  showLoginPrompt :: bool
  renderedVotedTales :: "string set"
  pendingVotes :: "string list"
  succeededVotes :: "string list"


text \<open>
  \<open>onMutate\<close> and \<open>onError\<close> update the two state cells with functional updaters, so
  they act on the state of the moment they run.
\<close>

definition onMutate :: "VoteState \<Rightarrow> string \<Rightarrow> VoteState" where
  "onMutate s taleId =
     s\<lparr>votedTales := insert taleId (votedTales s),
       optimisticVotes := (optimisticVotes s)
         (taleId \<mapsto> (case optimisticVotes s taleId of None \<Rightarrow> 0 | Some v \<Rightarrow> v) + 1)\<rparr>"

definition onError :: "VoteState \<Rightarrow> string \<Rightarrow> VoteState" where
  "onError s taleId =
     s\<lparr>votedTales := votedTales s - {taleId},
       optimisticVotes := (optimisticVotes s)
         (taleId \<mapsto> (case optimisticVotes s taleId of None \<Rightarrow> 1 | Some v \<Rightarrow> v) - 1)\<rparr>"

text \<open>
  \<^verbatim>\<open>handleVote\<close>: without a signed-in user it opens the login prompt; otherwise it starts
  the mutation unless the tale is in the \<open>votedTales\<close> that the handler sees, which is
  the set of the last render. Starting the mutation runs \<open>onMutate\<close> and leaves the
  request pending.
\<close>

definition handleVote :: "bool \<Rightarrow> VoteState \<Rightarrow> string \<Rightarrow> VoteState" where
  "handleVote user s taleId =
     (if \<not> user then s\<lparr>showLoginPrompt := True\<rparr>
      else if taleId \<notin> renderedVotedTales s
           then (onMutate s taleId)\<lparr>pendingVotes := pendingVotes s @ [taleId]\<rparr>
           else s)"

text \<open>
  What happens to the vote state: the view renders again, the reader clicks a vote, or a
  pending request fails or succeeds. There is no \<^verbatim>\<open>onSuccess\<close> handler, so a success
  leaves the state cells as they are.
\<close>

datatype voteEvent =
    Render
  | Vote bool string
  | VoteFailed string
  | VoteSucceeded string

fun voteStep :: "VoteState \<Rightarrow> voteEvent \<Rightarrow> VoteState" where
  "voteStep s Render = s\<lparr>renderedVotedTales := votedTales s\<rparr>"
| "voteStep s (Vote user taleId) = handleVote user s taleId"
| "voteStep s (VoteFailed taleId) =
     (if taleId \<in> set (pendingVotes s)
      then (onError s taleId)\<lparr>pendingVotes := remove1 taleId (pendingVotes s)\<rparr>
      else s)"
| "voteStep s (VoteSucceeded taleId) =
     (if taleId \<in> set (pendingVotes s)
      then s\<lparr>pendingVotes := remove1 taleId (pendingVotes s),
             succeededVotes := succeededVotes s @ [taleId]\<rparr>
      else s)"


text \<open>
  The count the action bar shows:
  \<^verbatim>\<open>(data.votes ?? 0) + (optimisticVotes[data.id] ?? 0)\<close>.
\<close>

definition overlay :: "VoteState \<Rightarrow> string \<Rightarrow> int" where
  "overlay s taleId = (case optimisticVotes s taleId of None \<Rightarrow> 0 | Some v \<Rightarrow> v)"



section \<open>Auxiliary notions and sample data\<close>

text \<open>The node ids of a story map, empty when the map or its node array is absent.\<close>

definition nodeIds :: "StoryMapResponse option \<Rightarrow> string set" where
  "nodeIds mapData =
     (case mapData of None \<Rightarrow> {}
      | Some md \<Rightarrow> (case nodes md of None \<Rightarrow> {} | Some ns \<Rightarrow> node_id ` set ns))"

text \<open>
  The number a string of decimal digits denotes; nothing when a character of the string
  is not one of the digits \<^verbatim>\<open>0\<close> to \<^verbatim>\<open>9\<close>.
\<close>

definition digitValue :: "char \<Rightarrow> nat option" where
  "digitValue c =
     (if (48::nat) \<le> of_char c \<and> of_char c \<le> (57::nat) then Some (of_char c - 48) else None)"

definition decimalStep :: "nat option \<Rightarrow> char \<Rightarrow> nat option" where
  "decimalStep a c =
     (case a of None \<Rightarrow> None
      | Some n \<Rightarrow> (case digitValue c of None \<Rightarrow> None | Some d \<Rightarrow> Some (10 * n + d)))"

definition decimalValue :: "string \<Rightarrow> nat option" where
  "decimalValue s = foldl decimalStep (Some 0) s"

text \<open>
  A small story: \<open>A\<close> has a tie between \<open>B\<close> and \<open>C\<close> and an unvoted branch to \<open>D\<close>;
  \<open>C\<close> is deleted; \<open>B\<close> has no label.
\<close>

definition sampleNodes :: "StoryMapNode list" where
  "sampleNodes =
     [\<lparr>node_id = ''A'', node_label = Some ''Start'', node_type = ROOT,
        node_isDeleted = Some False\<rparr>,
      \<lparr>node_id = ''B'', node_label = None, node_type = BRANCH, node_isDeleted = None\<rparr>,
      \<lparr>node_id = ''C'', node_label = Some ''Gone'', node_type = LEAF,
        node_isDeleted = Some True\<rparr>,
      \<lparr>node_id = ''D'', node_label = Some ''End'', node_type = LEAF,
        node_isDeleted = Some False\<rparr>]"

definition sampleEdges :: "EdgeData list" where
  "sampleEdges =
     [\<lparr>sourceId = ''A'', targetId = ''B'', votes = 10\<rparr>,
      \<lparr>sourceId = ''A'', targetId = ''C'', votes = 10\<rparr>,
      \<lparr>sourceId = ''A'', targetId = ''D'', votes = 0\<rparr>,
      \<lparr>sourceId = ''B'', targetId = ''D'', votes = 7\<rparr>]"

definition sampleMap :: StoryMapResponse where
  "sampleMap = \<lparr>nodes = Some sampleNodes, edges = sampleEdges\<rparr>"

text \<open>A two-node story whose ids have the shape of GUIDs, as the host's ids do.\<close>

definition guidA :: string where
  "guidA = ''0a1b2c3d-0000-4000-8000-000000000001''"

definition guidB :: string where
  "guidB = ''0a1b2c3d-0000-4000-8000-000000000002''"

definition guidMap :: StoryMapResponse where
  "guidMap =
     \<lparr>nodes = Some [\<lparr>node_id = guidA, node_label = Some ''Once'', node_type = ROOT,
                      node_isDeleted = Some False\<rparr>,
                    \<lparr>node_id = guidB, node_label = Some ''Then'', node_type = LEAF,
                      node_isDeleted = Some False\<rparr>],
      edges = [\<lparr>sourceId = guidA, targetId = guidB, votes = 3\<rparr>]\<rparr>"

text \<open>
  The edges of one source, the maximum vote count among them, and the rule of the
  golden path: an edge wins when its votes equal the maximum of its group and that
  maximum is not zero.
\<close>

definition groupOf :: "EdgeData list \<Rightarrow> string \<Rightarrow> EdgeData list" where
  "groupOf es s = filter (\<lambda>e. sourceId e = s) es"

definition maxVotes :: "EdgeData list \<Rightarrow> string \<Rightarrow> int" where
  "maxVotes es s = Max (votes ` set (groupOf es s))"

definition isWinner :: "EdgeData list \<Rightarrow> EdgeData \<Rightarrow> bool" where
  "isWinner es e \<longleftrightarrow> maxVotes es (sourceId e) \<noteq> 0 \<and> votes e = maxVotes es (sourceId e)"

text \<open>The keys one group contributes to the map of winners.\<close>

definition groupKeys :: "string \<times> EdgeData list \<Rightarrow> string set" where
  "groupKeys grp =
     (if Math_max (map votes (snd grp)) = Some 0 then {}
      else {edgeKey (fst grp) (targetId e) | e. e \<in> set (snd grp)
              \<and> Some (votes e) = Math_max (map votes (snd grp))})"

text \<open>
  The winner set, as the set of keys of the map that \<^verbatim>\<open>processGoldenPath\<close> returns, and
  the test by which the view model decides that an edge is a winner:
  \<^verbatim>\<open>goldenPath.has(`${edge.sourceId}-${edge.targetId}`)\<close>.
\<close>

definition winnerKeys :: "EdgeData list \<Rightarrow> string set" where
  "winnerKeys es = fst ` set (processGoldenPath es)"

definition markedWinner :: "EdgeData list \<Rightarrow> EdgeData \<Rightarrow> bool" where
  "markedWinner es e = Map_has (processGoldenPath es) (edgeKey (sourceId e) (targetId e))"

definition sameKey :: "EdgeData \<Rightarrow> EdgeData \<Rightarrow> bool" where
  "sameKey e e' \<longleftrightarrow> edgeKey (sourceId e') (targetId e') = edgeKey (sourceId e) (targetId e)"

definition samePair :: "EdgeData \<Rightarrow> EdgeData \<Rightarrow> bool" where
  "samePair e e' \<longleftrightarrow> sourceId e' = sourceId e \<and> targetId e' = targetId e"

text \<open>An entry of the map of winners that comes from a winning edge.\<close>

definition winnerEntry :: "EdgeData list \<Rightarrow> string \<times> string \<Rightarrow> bool" where
  "winnerEntry es kv \<longleftrightarrow>
     (\<exists>e \<in> set es. isWinner es e \<and> fst kv = edgeKey (sourceId e) (targetId e)
        \<and> snd kv = targetId e)"

text \<open>Two edges between the same pair of nodes, with different vote counts.\<close>

definition dupEdges :: "EdgeData list" where
  "dupEdges = [\<lparr>sourceId = ''A'', targetId = ''B'', votes = 5\<rparr>,
               \<lparr>sourceId = ''A'', targetId = ''B'', votes = 3\<rparr>]"

text \<open>Two edges between different pairs of nodes whose keys are both \<^verbatim>\<open>a-b-c\<close>.\<close>

definition clashEdges :: "EdgeData list" where
  "clashEdges = [\<lparr>sourceId = ''a'', targetId = ''b-c'', votes = 5\<rparr>,
                 \<lparr>sourceId = ''a-b'', targetId = ''c'', votes = 0\<rparr>]"

text \<open>Two story maps, for the tales \<open>A\<close> and \<open>B\<close>.\<close>

definition mapA :: StoryMapResponse where
  "mapA = \<lparr>nodes = Some [\<lparr>node_id = ''A'', node_label = Some ''First tale'', node_type = ROOT,
                               node_isDeleted = Some False\<rparr>], edges = []\<rparr>"

definition mapB :: StoryMapResponse where
  "mapB = \<lparr>nodes = Some [\<lparr>node_id = ''B'', node_label = Some ''Second tale'', node_type = ROOT,
                               node_isDeleted = Some False\<rparr>], edges = []\<rparr>"





section \<open>Properties of the view model\<close>

lemma processed_nodes:
  "fst (processed mapData cur) =
     (case mapData of None \<Rightarrow> []
      | Some md \<Rightarrow> (case nodes md of None \<Rightarrow> []
          | Some ns \<Rightarrow> map (toFlowNode cur (winnerNodes (processGoldenPath (edges md)))) ns))"
  by (simp add: processed_def Let_def split: option.splits)

lemma processed_edges:
  "nodes md = Some ns \<Longrightarrow> ns \<noteq> [] \<Longrightarrow>
   snd (processed (Some md) cur) = map (toFlowEdge (processGoldenPath (edges md))) (edges md)"
  by (simp add: processed_def Let_def)

lemma digitValue_char: "d < 10 \<Longrightarrow> digitValue (char_of (48 + d)) = Some d"
  by (simp add: digitValue_def)

lemma decimalValue_snoc: "decimalValue (s @ [c]) = decimalStep (decimalValue s) c"
  by (simp add: decimalValue_def)

lemma digits_nonempty: "digits n \<noteq> []"
  by (subst digits.simps) simp

lemma decimalValue_digits: "decimalValue (digits n) = Some n"
proof (induction n rule: digits.induct)
  case (1 n)
  show ?case
  proof (cases "n < 10")
    case True
    then show ?thesis
      by (subst digits.simps) (simp add: decimalValue_def decimalStep_def digitValue_char)
  next
    case False
    then have "decimalValue (digits (n div 10)) = Some (n div 10)"
      using 1 by simp
    with False show ?thesis
      by (subst digits.simps) (simp add: decimalValue_snoc decimalStep_def digitValue_char)
  qed
qed

lemma char_of_digit_not_zero: "0 < d \<Longrightarrow> d < 10 \<Longrightarrow> char_of (48 + d :: nat) \<noteq> CHR ''0''"
proof
  assume d: "0 < d" "d < 10" and e: "char_of (48 + d) = CHR ''0''"
  from e have "(of_char (char_of (48 + d)) :: nat) = of_char CHR ''0''" by simp
  with d show False by simp
qed

lemma digits_no_leading_zero: "0 < n \<Longrightarrow> hd (digits n) \<noteq> CHR ''0''"
proof (induction n rule: digits.induct)
  case (1 n)
  show ?case
  proof (cases "n < 10")
    case True
    with "1.prems" show ?thesis
      by (subst digits.simps) (simp add: char_of_digit_not_zero)
  next
    case False
    then have "0 < n div 10" by simp
    with 1 False have "hd (digits (n div 10)) \<noteq> CHR ''0''" by simp
    with False show ?thesis
      by (subst digits.simps) (simp add: digits_nonempty)
  qed
qed

lemma digitValue_Some: "digitValue c = Some d \<Longrightarrow> d < 10 \<and> c = char_of (48 + d)"
proof -
  assume a: "digitValue c = Some d"
  then have r: "(48::nat) \<le> of_char c" "of_char c \<le> (57::nat)" and d: "d = of_char c - 48"
    by (auto simp: digitValue_def split: if_splits)
  then have "48 + d = (of_char c :: nat)" by simp
  then have "char_of (48 + d) = char_of (of_char c :: nat)" by simp
  with r d show ?thesis by simp
qed

lemma decimal_numeral_unique:
  "l \<noteq> [] \<Longrightarrow> hd l \<noteq> CHR ''0'' \<Longrightarrow> decimalValue l = Some n \<Longrightarrow> l = digits n"
proof (induction l arbitrary: n rule: rev_induct)
  case Nil
  then show ?case by simp
next
  case (snoc c l')
  from snoc.prems(3) obtain m d where m: "decimalValue l' = Some m" and d: "digitValue c = Some d"
    and n: "n = 10 * m + d"
    by (auto simp: decimalValue_snoc decimalStep_def split: option.splits)
  from digitValue_Some [OF d] have d10: "d < 10" and c: "c = char_of (48 + d)" by simp_all
  show ?case
  proof (cases "l' = []")
    case True
    with m have "m = 0" by (simp add: decimalValue_def)
    with n d10 True c show ?thesis
      by (subst digits.simps) simp
  next
    case False
    with snoc.prems(2) have h: "hd l' \<noteq> CHR ''0''" by simp
    from snoc.IH [OF False h m] have l': "l' = digits m" .
    have "m \<noteq> 0"
    proof
      assume "m = 0"
      have "digits 0 = ''0''" by code_simp
      with l' \<open>m = 0\<close> have "l' = ''0''" by simp
      with h show False by simp
    qed
    with n d10 have "\<not> n < 10" "n div 10 = m" "n mod 10 = d" by simp_all
    with l' c show ?thesis
      by (subst digits.simps) simp
  qed
qed

text \<open>
  C1, at a story whose ids are GUID-shaped. The edge from \<open>guidA\<close> to \<open>guidB\<close> has three
  votes and is the only edge, so it is a winning edge: its key is in the golden path.
  The target \<open>guidB\<close> is marked as on the winner path, but the source \<open>guidA\<close> is not:
  \<^verbatim>\<open>edgeKey.split('-')[0]\<close> yields \<^verbatim>\<open>0a1b2c3d\<close>, the part of \<open>guidA\<close> before its first
  \<^verbatim>\<open>-\<close>, and that is the string added to the set of winner nodes.
\<close>

theorem winner_source_with_dash_not_marked:
  "Map_has (processGoldenPath (edges guidMap)) (edgeKey guidA guidB)
   \<and> map (\<lambda>n. (flow_id n, isOnWinnerPath (flow_data n))) (fst (processed (Some guidMap) None))
       = [(guidA, False), (guidB, True)]
   \<and> winnerNodes (processGoldenPath (edges guidMap)) = {''0a1b2c3d'', guidB}"
  by code_simp

text \<open>
  C6: when the map is absent, or its node array is absent or empty, the processed node
  and edge lists are empty, and the component returns the loading panel if \<open>isLoading\<close>
  is true and otherwise the empty panel, whose text is \<^verbatim>\<open>No story map available\<close> and
  differs from that of the loading panel. The model is a total function, so no exception
  is raised on these inputs.
\<close>

theorem empty_map_renders_empty_panel:
  assumes "mapData = None \<or> (\<exists>md. mapData = Some md \<and> (nodes md = None \<or> nodes md = Some []))"
  shows "processed mapData cur = ([], [])
       \<and> StoryGraph mapData cur isLoading
           = (if isLoading = Some True then LoadingPanel else EmptyPanel)
       \<and> panelText EmptyPanel = Some ''No story map available''
       \<and> panelText LoadingPanel \<noteq> panelText EmptyPanel"
  using assms
  by (auto simp: processed_def StoryGraph_def)

theorem empty_map_renders_empty_panel_witness:
  "nodes \<lparr>nodes = Some [], edges = sampleEdges\<rparr> = Some []
   \<and> processed (Some \<lparr>nodes = Some [], edges = sampleEdges\<rparr>) (Some ''A'') = ([], [])
   \<and> StoryGraph (Some \<lparr>nodes = Some [], edges = sampleEdges\<rparr>) (Some ''A'') None = EmptyPanel"
  using empty_map_renders_empty_panel
          [of "Some \<lparr>nodes = Some [], edges = sampleEdges\<rparr>" "Some ''A''" None]
  by simp

text \<open>
  C7: when \<open>currentTaleId\<close> is not the id of any node of the map, no processed node has
  \<open>isCurrent\<close> set. The builder is a total function of its inputs, so it does not throw.
\<close>

theorem missing_current_id_marks_none:
  assumes "currentTaleId \<notin> Some ` nodeIds mapData"
  shows "\<forall>n \<in> set (fst (processed mapData currentTaleId)). \<not> isCurrent (flow_data n)"
  using assms
  by (auto simp: processed_nodes nodeIds_def toFlowNode_def split: option.splits)

theorem missing_current_id_marks_none_witness:
  "Some ''Q'' \<notin> Some ` nodeIds (Some sampleMap)
   \<and> map (\<lambda>n. isCurrent (flow_data n)) (fst (processed (Some sampleMap) (Some ''Q'')))
       = [False, False, False, False]"
proof -
  have h: "Some ''Q'' \<notin> Some ` nodeIds (Some sampleMap)"
    by code_simp
  have ns: "map flow_id (fst (processed (Some sampleMap) (Some ''Q''))) = [''A'', ''B'', ''C'', ''D'']"
    by code_simp
  from ns obtain a b c d where p: "fst (processed (Some sampleMap) (Some ''Q'')) = [a, b, c, d]"
    by auto
  with missing_current_id_marks_none [OF h] h show ?thesis
    by simp
qed

text \<open>
  C8: the processed edge of an input edge carries a label exactly when the vote count
  is positive, and none when the count is zero. For a positive count within the safe
  integers the label is the decimal numeral of the count: a non-empty string of digits,
  without leading zero, whose value is the count (\<open>decimal_numeral_unique\<close>: there is
  one such string).
\<close>

theorem edge_label_iff_positive_votes:
  assumes "nodes md = Some ns" and "ns \<noteq> []" and "i < length (edges md)"
  shows "let e = edges md ! i; r = snd (processed (Some md) cur) ! i in
           (edge_label r \<noteq> None \<longleftrightarrow> votes e > 0)
         \<and> (votes e = 0 \<longrightarrow> edge_label r = None)
         \<and> (0 < votes e \<and> votes e \<le> MAX_SAFE_INTEGER \<longrightarrow>
              (\<exists>l. edge_label r = Some l \<and> l \<noteq> [] \<and> hd l \<noteq> CHR ''0''
                   \<and> decimalValue l = Some (nat (votes e))))"
  using assms
  by (simp add: processed_edges Let_def toFlowEdge_def Number_toString_def decimalValue_digits
                digits_nonempty digits_no_leading_zero)

theorem edge_label_iff_positive_votes_witness:
  "nodes sampleMap = Some sampleNodes \<and> sampleNodes \<noteq> [] \<and> 0 < length (edges sampleMap)
   \<and> votes (edges sampleMap ! 0) = 10 \<and> (10::int) \<le> MAX_SAFE_INTEGER
   \<and> edge_label (snd (processed (Some sampleMap) None) ! 0) = Some ''10''"
proof -
  have h1: "nodes sampleMap = Some sampleNodes" and h2: "sampleNodes \<noteq> []"
    and h3: "0 < length (edges sampleMap)" and v: "votes (edges sampleMap ! 0) = 10"
    by (simp_all add: sampleMap_def sampleNodes_def sampleEdges_def)
  have b: "(10::int) \<le> MAX_SAFE_INTEGER"
    by (simp add: MAX_SAFE_INTEGER_def)
  have d: "digits 10 = ''10''"
    by code_simp
  from edge_label_iff_positive_votes [OF h1 h2 h3, of None] v b
  obtain l where l: "edge_label (snd (processed (Some sampleMap) None) ! 0) = Some l"
    "l \<noteq> []" "hd l \<noteq> CHR ''0''" "decimalValue l = Some 10"
    by (auto simp: Let_def)
  from decimal_numeral_unique [OF l(2,3,4)] d have "l = ''10''" by simp
  with l(1) h1 h2 h3 v b show ?thesis by simp
qed

text \<open>
  C10: a node whose \<open>isDeleted\<close> flag is true is rendered with the text \<^verbatim>\<open>[Deleted]\<close>
  and without type indicator badge; any other node is rendered with its label, or with
  \<^verbatim>\<open>Untitled\<close> when the label is absent or empty, and with the badge of its type.
\<close>

theorem deleted_node_rendering:
  assumes "nodes md = Some ns" and "i < length ns"
  shows "let n = ns ! i; v = StoryNode (flow_data (fst (processed (Some md) cur) ! i)) in
           (node_isDeleted n = Some True \<longrightarrow>
              textLabel v = ''[Deleted]'' \<and> typeIndicator v = None)
         \<and> (node_isDeleted n \<noteq> Some True \<longrightarrow>
              textLabel v = (case node_label n of None \<Rightarrow> ''Untitled''
                             | Some l \<Rightarrow> if l = [] then ''Untitled'' else l)
              \<and> typeIndicator v = getTypeIndicator (node_type n))"
  using assms
  by (auto simp: processed_nodes Let_def toFlowNode_def StoryNode_def split: option.splits)

theorem deleted_node_rendering_witness:
  "nodes sampleMap = Some sampleNodes \<and> 2 < length sampleNodes
   \<and> node_isDeleted (sampleNodes ! 2) = Some True
   \<and> textLabel (StoryNode (flow_data (fst (processed (Some sampleMap) None) ! 2))) = ''[Deleted]''
   \<and> typeIndicator (StoryNode (flow_data (fst (processed (Some sampleMap) None) ! 2))) = None"
proof -
  have h1: "nodes sampleMap = Some sampleNodes" and h2: "2 < length sampleNodes"
    and d: "node_isDeleted (sampleNodes ! 2) = Some True"
    by (simp_all add: sampleMap_def sampleNodes_def)
  from deleted_node_rendering [OF h1 h2, of None] d h1 h2 show ?thesis
    by (simp add: Let_def)
qed

section \<open>Properties of the golden path\<close>

lemma map_of_Map_set: "map_of (Map_set k v m) = (map_of m)(k \<mapsto> v)"
  by (induction m) (auto simp: fun_eq_iff)

lemma keys_Map_set: "fst ` set (Map_set k v m) = insert k (fst ` set m)"
  by (induction m) auto

lemma distinct_Map_set: "distinct (map fst m) \<Longrightarrow> distinct (map fst (Map_set k v m))"
  by (induction m) (auto simp: keys_Map_set)

lemma Map_has_keys: "Map_has m k \<longleftrightarrow> k \<in> fst ` set m"
  by (simp add: Map_has_def map_of_eq_None_iff)

lemma groupEdges_snoc: "groupEdges (es @ [e]) = groupStep (groupEdges es) e"
  by (simp add: groupEdges_def)

lemma groupEdges_distinct: "distinct (map fst (groupEdges es))"
  by (induction es rule: rev_induct)
     (simp_all add: groupEdges_snoc groupStep_def distinct_Map_set, simp add: groupEdges_def)

lemma groupEdges_lookup:
  "map_of (groupEdges es) s = (if groupOf es s = [] then None else Some (groupOf es s))"
proof (induction es rule: rev_induct)
  case Nil
  show ?case by (simp add: groupEdges_def groupOf_def)
next
  case (snoc e es)
  then show ?case
    by (auto simp: groupEdges_snoc groupStep_def Map_get_def map_of_Map_set groupOf_def)
qed

lemma groupEdges_set:
  "set (groupEdges es) = (\<lambda>s. (s, groupOf es s)) ` sourceId ` set es"
proof -
  have ne: "groupOf es s \<noteq> [] \<longleftrightarrow> s \<in> sourceId ` set es" for s
    by (auto simp: groupOf_def filter_empty_conv)
  have "(s, g) \<in> set (groupEdges es) \<longleftrightarrow> (s \<in> sourceId ` set es \<and> g = groupOf es s)" for s g
  proof -
    have "(s, g) \<in> set (groupEdges es) \<longleftrightarrow> map_of (groupEdges es) s = Some g"
      using groupEdges_distinct by (simp add: map_of_eq_Some_iff)
    also have "\<dots> \<longleftrightarrow> (s \<in> sourceId ` set es \<and> g = groupOf es s)"
      using ne [of s] by (auto simp: groupEdges_lookup)
    finally show ?thesis .
  qed
  then show ?thesis by auto
qed

lemma Math_max_Max: "xs \<noteq> [] \<Longrightarrow> Math_max xs = Some (Max (set xs))"
proof (cases xs)
  case Nil
  then show "xs \<noteq> [] \<Longrightarrow> ?thesis" by simp
next
  case (Cons x ys)
  have "foldl max x ys = fold max ys x"
    by (simp add: foldl_conv_fold max.commute)
  then show ?thesis using Cons Max.set_eq_fold [of x ys] by simp
qed

lemma mark_keys:
  "fst ` set (foldl (markStep src mx) w es)
     = fst ` set w \<union> {edgeKey src (targetId e) | e. e \<in> set es \<and> Some (votes e) = mx}"
  by (induction es arbitrary: w) (auto simp: markStep_def keys_Map_set)

lemma winnerStep_keys: "fst ` set (winnerStep w grp) = fst ` set w \<union> groupKeys grp"
  by (simp add: winnerStep_def groupKeys_def Let_def mark_keys)

lemma winners_keys:
  "fst ` set (foldl winnerStep w gs) = fst ` set w \<union> (\<Union>g \<in> set gs. groupKeys g)"
  by (induction gs arbitrary: w) (auto simp: winnerStep_keys)

lemma groupKeys_groupOf:
  assumes "s \<in> sourceId ` set es"
  shows "groupKeys (s, groupOf es s)
           = {edgeKey (sourceId e) (targetId e) | e. e \<in> set es \<and> sourceId e = s \<and> isWinner es e}"
proof -
  have ne: "groupOf es s \<noteq> []"
    using assms by (auto simp: groupOf_def filter_empty_conv)
  then have mx: "Math_max (map votes (groupOf es s)) = Some (maxVotes es s)"
    by (simp add: Math_max_Max maxVotes_def)
  show ?thesis
    unfolding groupKeys_def using mx
    by (auto simp: isWinner_def groupOf_def)
qed

lemma winnerKeys_char:
  "winnerKeys es = {edgeKey (sourceId e) (targetId e) | e. e \<in> set es \<and> isWinner es e}"
proof -
  have "winnerKeys es = (\<Union>s \<in> sourceId ` set es. groupKeys (s, groupOf es s))"
    by (simp add: winnerKeys_def processGoldenPath_def winners_keys groupEdges_set)
  also have "\<dots> = (\<Union>s \<in> sourceId ` set es.
      {edgeKey (sourceId e) (targetId e) | e. e \<in> set es \<and> sourceId e = s \<and> isWinner es e})"
    using groupKeys_groupOf by simp
  also have "\<dots> = {edgeKey (sourceId e) (targetId e) | e. e \<in> set es \<and> isWinner es e}"
    by auto
  finally show ?thesis .
qed

lemma key_in_comprehension:
  "k \<in> {f x | x. x \<in> A \<and> P x} \<longleftrightarrow> (\<exists>x \<in> A. f x = k \<and> P x)"
  by auto

lemma markedWinner_iff:
  "markedWinner es e \<longleftrightarrow> (\<exists>e' \<in> set es. sameKey e e' \<and> isWinner es e')"
proof -
  have "markedWinner es e \<longleftrightarrow> edgeKey (sourceId e) (targetId e) \<in> winnerKeys es"
    by (simp add: markedWinner_def Map_has_keys winnerKeys_def)
  also have "\<dots> \<longleftrightarrow> (\<exists>e' \<in> set es. sameKey e e' \<and> isWinner es e')"
    unfolding winnerKeys_char sameKey_def by (rule key_in_comprehension)
  finally show ?thesis .
qed

lemma toFlowEdge_animated: "animated (toFlowEdge (processGoldenPath es) e) = markedWinner es e"
  by (simp add: toFlowEdge_def markedWinner_def Let_def)

lemma isWinner_cong: "set es = set es' \<Longrightarrow> isWinner es e = isWinner es' e"
  by (simp add: isWinner_def maxVotes_def groupOf_def)

lemma winnerKeys_set:
  assumes "set es = set es'"
  shows "winnerKeys es = winnerKeys es'"
proof -
  have "isWinner es e = isWinner es' e" for e
    using assms by (rule isWinner_cong)
  with assms show ?thesis
    by (simp add: winnerKeys_char)
qed

lemma zero_vote_group_unmarked:
  assumes "e \<in> set es" and "maxVotes es (sourceId e) = 0"
    and "\<forall>e' \<in> set es. sameKey e e' \<longrightarrow> samePair e e'"
  shows "\<not> markedWinner es e"
  using assms unfolding markedWinner_iff by (auto simp: isWinner_def samePair_def)

text \<open>
  C3, as amended. In a group whose maximum vote count is positive, every edge whose
  votes equal the maximum is marked as a winner, so all edges tied at the maximum are
  winners together. The mark is stored under the key of the edge; so, when no edge
  between another pair of nodes has the same key, an edge of the group is marked exactly
  when some input edge between the same source and target has the maximum vote count.
\<close>

theorem tie_rule_by_key:
  assumes "e \<in> set es" and "maxVotes es (sourceId e) > 0"
  shows "(votes e = maxVotes es (sourceId e) \<longrightarrow> markedWinner es e)
       \<and> ((\<forall>e' \<in> set es. sameKey e e' \<longrightarrow> samePair e e') \<longrightarrow>
            (markedWinner es e \<longleftrightarrow>
               (\<exists>e' \<in> set es. samePair e e' \<and> votes e' = maxVotes es (sourceId e))))"
proof (intro conjI impI)
  assume "votes e = maxVotes es (sourceId e)"
  with assms have "isWinner es e" by (simp add: isWinner_def)
  with assms(1) show "markedWinner es e"
    unfolding markedWinner_iff sameKey_def by blast
next
  assume inj: "\<forall>e' \<in> set es. sameKey e e' \<longrightarrow> samePair e e'"
  have sp: "samePair e e' \<Longrightarrow> sameKey e e'" for e'
    by (simp add: samePair_def sameKey_def)
  show "markedWinner es e \<longleftrightarrow>
          (\<exists>e' \<in> set es. samePair e e' \<and> votes e' = maxVotes es (sourceId e))"
  proof
    assume "markedWinner es e"
    then obtain e' where e': "e' \<in> set es" "sameKey e e'" "isWinner es e'"
      unfolding markedWinner_iff by blast
    with inj have "samePair e e'" by blast
    with e' show "\<exists>e' \<in> set es. samePair e e' \<and> votes e' = maxVotes es (sourceId e)"
      by (auto simp: isWinner_def samePair_def)
  next
    assume "\<exists>e' \<in> set es. samePair e e' \<and> votes e' = maxVotes es (sourceId e)"
    then obtain e' where e': "e' \<in> set es" "samePair e e'" "votes e' = maxVotes es (sourceId e)"
      by blast
    with assms(2) have "isWinner es e'" by (simp add: isWinner_def samePair_def)
    with e' sp show "markedWinner es e"
      unfolding markedWinner_iff by blast
  qed
qed

theorem tie_rule_by_key_witness:
  "\<lparr>sourceId = ''A'', targetId = ''D'', votes = 0\<rparr> \<in> set sampleEdges
   \<and> maxVotes sampleEdges ''A'' = 10
   \<and> markedWinner sampleEdges \<lparr>sourceId = ''A'', targetId = ''B'', votes = 10\<rparr>
   \<and> markedWinner sampleEdges \<lparr>sourceId = ''A'', targetId = ''C'', votes = 10\<rparr>
   \<and> \<not> markedWinner sampleEdges \<lparr>sourceId = ''A'', targetId = ''D'', votes = 0\<rparr>"
proof -
  have m: "maxVotes sampleEdges ''A'' = 10"
    by code_simp
  have b: "\<lparr>sourceId = ''A'', targetId = ''B'', votes = 10\<rparr> \<in> set sampleEdges"
    and c: "\<lparr>sourceId = ''A'', targetId = ''C'', votes = 10\<rparr> \<in> set sampleEdges"
    and d: "\<lparr>sourceId = ''A'', targetId = ''D'', votes = 0\<rparr> \<in> set sampleEdges"
    by (simp_all add: sampleEdges_def)
  have inj: "\<forall>e' \<in> set sampleEdges.
               sameKey \<lparr>sourceId = ''A'', targetId = ''D'', votes = 0\<rparr> e'
               \<longrightarrow> samePair \<lparr>sourceId = ''A'', targetId = ''D'', votes = 0\<rparr> e'"
    by (simp add: sampleEdges_def sameKey_def samePair_def edgeKey_def)
  have none: "\<not> (\<exists>e' \<in> set sampleEdges.
                   samePair \<lparr>sourceId = ''A'', targetId = ''D'', votes = 0\<rparr> e'
                   \<and> votes e' = 10)"
    by (simp add: sampleEdges_def samePair_def)
  from tie_rule_by_key [OF b] tie_rule_by_key [OF c] tie_rule_by_key [OF d] m inj none d
  show ?thesis
    by simp
qed

text \<open>
  C3 as stated fails on two edges from \<open>A\<close> to \<open>B\<close> with five and three votes: the
  maximum of the group is five, the second edge has three votes, and it is marked as a
  winner, because the mark of the first edge is stored under the key they share.
\<close>

theorem lower_voted_duplicate_marked:
  "sourceId (dupEdges ! 1) = ''A'' \<and> maxVotes dupEdges ''A'' = 5 \<and> votes (dupEdges ! 1) = 3
   \<and> markedWinner dupEdges (dupEdges ! 1)
   \<and> animated (toFlowEdge (processGoldenPath dupEdges) (dupEdges ! 1))"
  by code_simp

text \<open>
  C4, at two edges with the same key \<^verbatim>\<open>a-b-c\<close>: the only edge of the source \<^verbatim>\<open>a-b\<close>
  has no votes, so the maximum of its group is zero; yet it is marked as a winner and
  is drawn as one, because the five-vote edge from \<^verbatim>\<open>a\<close> to \<^verbatim>\<open>b-c\<close> is stored under the
  same key.
\<close>

theorem zero_vote_group_marked_by_key_clash:
  "sourceId (clashEdges ! 1) = ''a-b'' \<and> maxVotes clashEdges ''a-b'' = 0
   \<and> votes (clashEdges ! 1) = 0
   \<and> markedWinner clashEdges (clashEdges ! 1)
   \<and> animated (toFlowEdge (processGoldenPath clashEdges) (clashEdges ! 1))"
  by code_simp

text \<open>
  C5: the function has no state, so two runs on the same list give the same map; and
  the winner set, as the set of keys, is the same for every permutation of the list.
\<close>

theorem golden_path_order_independent:
  assumes "mset es = mset es'"
  shows "winnerKeys es = winnerKeys es'"
  using assms by (intro winnerKeys_set mset_eq_setD)

theorem golden_path_order_independent_witness:
  "mset sampleEdges = mset (rev sampleEdges) \<and> sampleEdges \<noteq> rev sampleEdges
   \<and> winnerKeys sampleEdges = winnerKeys (rev sampleEdges)"
proof -
  have h: "mset sampleEdges = mset (rev sampleEdges)"
    by simp
  have d: "sampleEdges \<noteq> rev sampleEdges"
    by (simp add: sampleEdges_def)
  from golden_path_order_independent [OF h] h d show ?thesis
    by simp
qed

section \<open>The ends of winning edges\<close>

text \<open>
  When no source id contains the separator \<^verbatim>\<open>-\<close>, reading the source back from the key
  is exact, and both ends of every winning edge are in the set of winner nodes.
\<close>

lemma Map_set_entries: "set (Map_set k v m) \<subseteq> insert (k, v) (set m)"
  by (induction m) auto

lemma mark_entries:
  "set (foldl (markStep src mx) w es)
     \<subseteq> set w \<union> {(edgeKey src (targetId e), targetId e) | e. e \<in> set es \<and> Some (votes e) = mx}"
proof (induction es arbitrary: w)
  case Nil
  show ?case by simp
next
  case (Cons e es)
  have "set (markStep src mx w e)
          \<subseteq> set w \<union> {(edgeKey src (targetId e'), targetId e') | e'. e' = e \<and> Some (votes e') = mx}"
    using Map_set_entries [of "edgeKey src (targetId e)" "targetId e" w]
    by (auto simp: markStep_def)
  with Cons.IH [of "markStep src mx w e"] show ?case
    by auto
qed

lemma winnerStep_entries:
  assumes "s \<in> sourceId ` set es" and "\<forall>kv \<in> set w. winnerEntry es kv"
  shows "\<forall>kv \<in> set (winnerStep w (s, groupOf es s)). winnerEntry es kv"
proof -
  have ne: "groupOf es s \<noteq> []"
    using assms(1) by (auto simp: groupOf_def filter_empty_conv)
  then have mx: "Math_max (map votes (groupOf es s)) = Some (maxVotes es s)"
    by (simp add: Math_max_Max maxVotes_def)
  show ?thesis
  proof (cases "maxVotes es s = 0")
    case True
    with mx assms(2) show ?thesis by (simp add: winnerStep_def)
  next
    case False
    define X where "X = {(edgeKey s (targetId e), targetId e) | e.
                  e \<in> set (groupOf es s) \<and> Some (votes e) = Some (maxVotes es s)}"
    have new: "winnerEntry es kv" if "kv \<in> X" for kv
      using that False unfolding X_def by (auto simp: winnerEntry_def isWinner_def groupOf_def)
    have "winnerStep w (s, groupOf es s)
            = foldl (markStep s (Some (maxVotes es s))) w (groupOf es s)"
      using False mx by (simp add: winnerStep_def Let_def)
    then have sub: "set (winnerStep w (s, groupOf es s)) \<subseteq> set w \<union> X"
      using mark_entries [of s "Some (maxVotes es s)" w "groupOf es s"] unfolding X_def by simp
    show ?thesis
    proof
      fix kv
      assume "kv \<in> set (winnerStep w (s, groupOf es s))"
      with sub have "kv \<in> set w \<or> kv \<in> X" by blast
      with assms(2) new show "winnerEntry es kv" by blast
    qed
  qed
qed

lemma winners_entries:
  assumes "\<forall>g \<in> set gs. \<exists>s \<in> sourceId ` set es. g = (s, groupOf es s)"
    and "\<forall>kv \<in> set w. winnerEntry es kv"
  shows "\<forall>kv \<in> set (foldl winnerStep w gs). winnerEntry es kv"
  using assms
proof (induction gs arbitrary: w)
  case Nil
  then show ?case by simp
next
  case (Cons g gs)
  from Cons.prems(1) obtain s where s: "s \<in> sourceId ` set es" "g = (s, groupOf es s)"
    by auto
  have "\<forall>kv \<in> set (winnerStep w g). winnerEntry es kv"
    unfolding s(2) by (rule winnerStep_entries [OF s(1) Cons.prems(2)])
  with Cons.IH [of "winnerStep w g"] Cons.prems(1) show ?case
    by simp
qed

lemma processGoldenPath_entries:
  "kv \<in> set (processGoldenPath es) \<Longrightarrow> winnerEntry es kv"
  using winners_entries [of "groupEdges es" es "[]"]
  by (auto simp: processGoldenPath_def groupEdges_set)

lemma winnerNodes_fold:
  "foldl (\<lambda>ws entry.
              let edgeKey = fst entry; targetId = snd entry;
                  sourceId = hd (split CHR ''-'' edgeKey)
              in insert targetId (insert sourceId ws)) ws gp
     = ws \<union> (\<Union>kv \<in> set gp. {hd (split CHR ''-'' (fst kv)), snd kv})"
  by (induction gp arbitrary: ws) (auto simp: Let_def)

lemma winnerNodes_char:
  "winnerNodes gp = (\<Union>kv \<in> set gp. {hd (split CHR ''-'' (fst kv)), snd kv})"
  unfolding winnerNodes_def winnerNodes_fold by simp

lemma split_nonempty: "split c xs \<noteq> []"
  by (induction xs) (auto split: list.splits)

lemma hd_split: "c \<notin> set s \<Longrightarrow> hd (split c (s @ c # t)) = s"
  by (induction s) (auto simp: split_nonempty split: list.splits)

lemma edgeKey_dashfree_inj:
  assumes "edgeKey s t = edgeKey s' t'" and "CHR ''-'' \<notin> set s" and "CHR ''-'' \<notin> set s'"
  shows "s = s' \<and> t = t'"
proof -
  have "hd (split CHR ''-'' (edgeKey s t)) = s" and "hd (split CHR ''-'' (edgeKey s' t')) = s'"
    using assms(2,3) by (simp_all add: edgeKey_def hd_split)
  with assms(1) have "s = s'" by simp
  with assms(1) show ?thesis by (simp add: edgeKey_def)
qed

lemma winner_ends_marked_without_dash:
  assumes "e \<in> set es" and "isWinner es e"
    and "\<forall>e' \<in> set es. CHR ''-'' \<notin> set (sourceId e')"
  shows "sourceId e \<in> winnerNodes (processGoldenPath es)
       \<and> targetId e \<in> winnerNodes (processGoldenPath es)"
proof -
  have "edgeKey (sourceId e) (targetId e) \<in> winnerKeys es"
    using assms(1,2) unfolding winnerKeys_char by blast
  then obtain v where kv: "(edgeKey (sourceId e) (targetId e), v) \<in> set (processGoldenPath es)"
    by (auto simp: winnerKeys_def)
  from processGoldenPath_entries [OF kv] obtain e' where e': "e' \<in> set es"
    "edgeKey (sourceId e) (targetId e) = edgeKey (sourceId e') (targetId e')" "v = targetId e'"
    by (auto simp: winnerEntry_def)
  from assms(1,3) e'(1) have "CHR ''-'' \<notin> set (sourceId e)" "CHR ''-'' \<notin> set (sourceId e')"
    by auto
  with edgeKey_dashfree_inj [OF e'(2)] e'(3) have v: "v = targetId e"
    by simp
  have "hd (split CHR ''-'' (edgeKey (sourceId e) (targetId e))) = sourceId e"
    using \<open>CHR ''-'' \<notin> set (sourceId e)\<close> by (simp add: edgeKey_def hd_split)
  with kv v show ?thesis
    unfolding winnerNodes_char by force
qed

section \<open>Properties of the optimistic votes\<close>



lemma overlay_onMutate:
  "overlay (onMutate s t) u = (if u = t then overlay s t + 1 else overlay s u)"
  by (simp add: overlay_def onMutate_def)



lemma voted_onMutate: "votedTales (onMutate s t) = insert t (votedTales s)"
  by (simp add: onMutate_def)



lemma rollback_voted: "votedTales (onError (onMutate s t) t) = votedTales s - {t}"
  by (simp add: onError_def onMutate_def)

lemma overlay_ghost:
  "overlay (r\<lparr>pendingVotes := p\<rparr>) u = overlay r u"
  "overlay (r\<lparr>succeededVotes := q\<rparr>) u = overlay r u"
  "overlay (r\<lparr>showLoginPrompt := b\<rparr>) u = overlay r u"
  "overlay (r\<lparr>renderedVotedTales := v\<rparr>) u = overlay r u"
  by (simp_all add: overlay_def)


lemma present_onMutate: "optimisticVotes (onMutate s t) u \<noteq> None \<longleftrightarrow> u = t \<or> optimisticVotes s u \<noteq> None"
  by (simp add: onMutate_def)

lemma present_onError: "optimisticVotes (onError s t) u \<noteq> None \<longleftrightarrow> u = t \<or> optimisticVotes s u \<noteq> None"
  by (simp add: onError_def)








lemma optimistic_step:
  assumes "taleId \<notin> renderedVotedTales s"
  shows "overlay (voteStep s (Vote True taleId)) taleId = overlay s taleId + 1
       \<and> votedTales (voteStep s (Vote True taleId)) = insert taleId (votedTales s)
       \<and> pendingVotes (voteStep s (Vote True taleId)) = pendingVotes s @ [taleId]"
  using assms by (simp add: handleVote_def overlay_ghost overlay_onMutate voted_onMutate)




section \<open>Properties of the story-map fetch\<close>

lemma runApp_snoc: "runApp (evs @ [e]) = appStep (runApp evs) e"
  by (simp add: runApp_def)

lemma runApp_append: "runApp (evs @ evs') = foldl appStep (runApp evs) evs'"
  by (simp add: runApp_def)

lemma mount_storyMapData: "storyMapData (view_map (mountReaderView i)) = None"
  by (simp add: mountReaderView_def initialMapState_def)

lemma appStep_late:
  assumes "lateFor (length vs - 1) e"
  shows "length (appStep vs e) = length vs \<and> last (appStep vs e) = last vs"
proof (cases e)
  case (Navigate i)
  with assms show ?thesis by simp
next
  case (MapResolved n d)
  with assms have "n < length vs - 1" by simp
  then have "n < length vs" "vs \<noteq> []" "n \<noteq> length vs - 1" by auto
  with MapResolved show ?thesis
    by (simp add: last_conv_nth)
next
  case (MapRejected n)
  with assms have "n < length vs - 1" by simp
  then have "n < length vs" "vs \<noteq> []" "n \<noteq> length vs - 1" by auto
  with MapRejected show ?thesis
    by (simp add: last_conv_nth)
qed

lemma foldl_late:
  assumes "\<forall>e \<in> set late. lateFor (length vs - 1) e"
  shows "length (foldl appStep vs late) = length vs \<and> last (foldl appStep vs late) = last vs"
  using assms
proof (induction late arbitrary: vs)
  case Nil
  show ?case by simp
next
  case (Cons e late)
  from Cons.prems have e: "lateFor (length vs - 1) e" by simp
  from appStep_late [OF e] have k: "length (appStep vs e) = length vs"
    "last (appStep vs e) = last vs" by simp_all
  with Cons.prems have "\<forall>e' \<in> set late. lateFor (length (appStep vs e) - 1) e'" by simp
  from Cons.IH [OF this] k show ?case by simp
qed

text \<open>
  C2: when the fetch of the view on screen has resolved, the responses that arrive later
  for the requests of the views mounted before it do not change the story-map state in
  effect, nor the tale on screen. So when the fetches for \<open>A\<close> then \<open>B\<close> overlap and the one
  for \<open>A\<close> resolves after the one for \<open>B\<close>, the state in effect is the data of \<open>B\<close>.
\<close>

theorem stale_response_never_overwrites:
  assumes "vs = runApp evs" and "vs \<noteq> []"
    and "view_id (last vs) \<in> set (inFlight (view_map (last vs)))"
    and "\<forall>e \<in> set late. lateFor (length vs - 1) e"
  shows "storyMapInEffect (runApp (evs @ [MapResolved (length vs - 1) mapData] @ late))
           = Some mapData
       \<and> currentTale (runApp (evs @ [MapResolved (length vs - 1) mapData] @ late))
           = currentTale vs"
proof -
  define ws where "ws = appStep vs (MapResolved (length vs - 1) mapData)"
  from assms(2) have n: "length vs - 1 < length vs" by simp
  have len: "length ws = length vs"
    using n by (simp add: ws_def)
  have lst: "last ws = (last vs)\<lparr>view_map :=
               fetchMapData (view_map (last vs)) (Resolved (view_id (last vs)) mapData)\<rparr>"
    using n assms(2) by (simp add: ws_def last_conv_nth)
  have d: "storyMapData (view_map (last ws)) = Some mapData" and i: "view_id (last ws) = view_id (last vs)"
    using assms(3) by (simp_all add: lst)
  from assms(4) len have "\<forall>e \<in> set late. lateFor (length ws - 1) e" by simp
  from foldl_late [OF this] have k: "length (foldl appStep ws late) = length ws"
    "last (foldl appStep ws late) = last ws" by simp_all
  have r: "runApp (evs @ [MapResolved (length vs - 1) mapData] @ late) = foldl appStep ws late"
    by (simp add: runApp_def ws_def assms(1))
  from k len assms(2) have ne: "foldl appStep ws late \<noteq> []" by auto
  show ?thesis
    unfolding r using ne k d i assms(2) by (simp add: storyMapInEffect_def currentTale_def)
qed

theorem stale_response_never_overwrites_witness:
  "runApp [Navigate ''A'', Navigate ''B''] \<noteq> []
   \<and> length (runApp [Navigate ''A'', Navigate ''B'']) - 1 = 1
   \<and> lateFor 1 (MapResolved 0 mapA)
   \<and> storyMapInEffect (runApp ([Navigate ''A'', Navigate ''B''] @ [MapResolved 1 mapB] @ [MapResolved 0 mapA]))
       = Some mapB
   \<and> currentTale (runApp ([Navigate ''A'', Navigate ''B''] @ [MapResolved 1 mapB] @ [MapResolved 0 mapA]))
       = Some ''B''
   \<and> mapA \<noteq> mapB"
proof -
  define vs where "vs = runApp [Navigate ''A'', Navigate ''B'']"
  have v: "vs = [mountReaderView ''A'', mountReaderView ''B'']"
    by (simp add: vs_def runApp_def mountReaderView_def)
  have h1: "vs = runApp [Navigate ''A'', Navigate ''B'']"
    by (simp add: vs_def)
  have h2: "vs \<noteq> []" and len: "length vs - 1 = 1" and l2: "length vs = 2"
    by (simp_all add: v)
  have h3: "view_id (last vs) \<in> set (inFlight (view_map (last vs)))"
    by (simp add: v mountReaderView_def initialMapState_def)
  have h4: "\<forall>e \<in> set [MapResolved 0 mapA]. lateFor (length vs - 1) e"
    by (simp add: v)
  have c: "currentTale vs = Some ''B''"
    by (simp add: v currentTale_def mountReaderView_def)
  have ne: "mapA \<noteq> mapB"
    by (simp add: mapA_def mapB_def)
  have l: "lateFor 1 (MapResolved 0 mapA)"
    by simp
  note t = stale_response_never_overwrites [OF h1 h2 h3 h4, of mapB, unfolded len c]
  from h2 len l t ne show ?thesis
    unfolding vs_def [symmetric] by simp
qed

text \<open>
  More generally, the story-map state in effect is at any time either empty or a
  response to the request of the view on screen.
\<close>

lemma effect_late:
  assumes "lateFor (length vs - 1) e"
  shows "storyMapInEffect (appStep vs e) = storyMapInEffect vs
       \<and> length (appStep vs e) = length vs"
proof -
  from appStep_late [OF assms] have k: "length (appStep vs e) = length vs"
    "last (appStep vs e) = last vs" by simp_all
  then have "appStep vs e = [] \<longleftrightarrow> vs = []" by (metis length_0_conv)
  with k show ?thesis by (simp add: storyMapInEffect_def)
qed

lemma effect_own:
  assumes "vs \<noteq> []"
  shows "storyMapInEffect (appStep vs (MapResolved (length vs - 1) d))
           = (if view_id (last vs) \<in> set (inFlight (view_map (last vs))) then Some d
              else storyMapInEffect vs)
       \<and> storyMapInEffect (appStep vs (MapRejected (length vs - 1)))
           = (if view_id (last vs) \<in> set (inFlight (view_map (last vs))) then None
              else storyMapInEffect vs)
       \<and> length (appStep vs (MapResolved (length vs - 1) d)) = length vs
       \<and> length (appStep vs (MapRejected (length vs - 1))) = length vs"
  using assms by (simp add: storyMapInEffect_def last_conv_nth)

lemma storyMapInEffect_own:
  "storyMapInEffect (runApp evs) = None
   \<or> (\<exists>d. MapResolved (length (runApp evs) - 1) d \<in> set evs
          \<and> storyMapInEffect (runApp evs) = Some d)"
proof (induction evs rule: rev_induct)
  case Nil
  show ?case by (simp add: runApp_def storyMapInEffect_def)
next
  case (snoc e evs)
  define vs where "vs = runApp evs"
  note IH = snoc.IH [folded vs_def]
  have r: "runApp (evs @ [ev]) = appStep vs ev" for ev
    by (simp add: runApp_snoc vs_def)
  show ?case
  proof (cases "lateFor (length vs - 1) e")
    case True
    from effect_late [OF True] IH show ?thesis
      unfolding r by auto
  next
    case False
    show ?thesis
    proof (cases e)
      case (Navigate i)
      show ?thesis
      proof (cases "vs \<noteq> [] \<and> view_id (last vs) = i")
        case True
        with Navigate IH show ?thesis
          unfolding r by auto
      next
        case False
        with Navigate show ?thesis
          unfolding r by (auto simp: storyMapInEffect_def mount_storyMapData)
      qed
    next
      case (MapResolved n d)
      show ?thesis
      proof (cases "n < length vs")
        case False
        with MapResolved IH show ?thesis
          unfolding r by auto
      next
        case True
        with \<open>\<not> lateFor (length vs - 1) e\<close> MapResolved
        have n: "n = length vs - 1" "vs \<noteq> []" by auto
        from effect_own [OF n(2), of d] IH show ?thesis
          unfolding r MapResolved n(1) by (auto split: if_splits simp del: appStep.simps)
      qed
    next
      case (MapRejected n)
      show ?thesis
      proof (cases "n < length vs")
        case False
        with MapRejected IH show ?thesis
          unfolding r by auto
      next
        case True
        with \<open>\<not> lateFor (length vs - 1) e\<close> MapRejected
        have n: "n = length vs - 1" "vs \<noteq> []" by auto
        from effect_own [OF n(2)] IH show ?thesis
          unfolding r MapRejected n(1) by (auto split: if_splits simp del: appStep.simps)
      qed
    qed
  qed
qed

end
